theory Spec2Isabelle
  imports Complex_Main "HOL-Library.Sublist"
begin

section \<open>Strings\<close>

text \<open>
  Python \<^verbatim>\<open>str\<close> values are modelled as \<^typ>\<open>string\<close>. \<^verbatim>\<open>str.lower()\<close> is modelled on
  the ASCII range (\<^verbatim>\<open>A\<close>..\<^verbatim>\<open>Z\<close> become \<^verbatim>\<open>a\<close>..\<^verbatim>\<open>z\<close>, every other character is kept),
  and \<^verbatim>\<open>needle in haystack\<close> is the contiguous-substring test.
\<close>

definition lower_chr :: "char \<Rightarrow> char" where
  "lower_chr c =
     (let n = (of_char c :: nat) in if 65 \<le> n \<and> n \<le> 90 then char_of (n + 32) else c)"

definition lower :: "string \<Rightarrow> string" where
  "lower s = map lower_chr s"

fun startswith :: "'a list \<Rightarrow> 'a list \<Rightarrow> bool" where
  "startswith hay [] = True"
| "startswith [] (n # ns) = False"
| "startswith (h # hay) (n # ns) = (h = n \<and> startswith hay ns)"

fun str_in :: "'a list \<Rightarrow> 'a list \<Rightarrow> bool" where
  "str_in needle [] = (needle = [])"
| "str_in needle (h # hay) = (startswith (h # hay) needle \<or> str_in needle hay)"

text \<open>
  The specification's notion of a case-insensitive substring match, stated without the
  code's \<open>lower\<close>: two characters are the same letter when they are equal or are the
  upper-case and lower-case form of one letter of the alphabet, and a marker matches a
  text when some contiguous segment of the text agrees with it letter by letter.
\<close>

definition upper_letters :: string where
  "upper_letters = ''ABCDEFGHIJKLMNOPQRSTUVWXYZ''"

definition lower_letters :: string where
  "lower_letters = ''abcdefghijklmnopqrstuvwxyz''"

definition letter_pairs :: "(char \<times> char) list" where
  "letter_pairs = zip upper_letters lower_letters"

definition same_letter :: "char \<Rightarrow> char \<Rightarrow> bool" where
  "same_letter c d = (c = d \<or> (c, d) \<in> set letter_pairs \<or> (d, c) \<in> set letter_pairs)"

definition ci_substring :: "string \<Rightarrow> string \<Rightarrow> bool" where
  "ci_substring marker s =
     (\<exists>pre mid post. s = pre @ mid @ post \<and> list_all2 same_letter mid marker)"


section \<open>Error classes (lib/ai/error\_handler.py)\<close>

text \<open>
  \<^verbatim>\<open>OpenAIError\<close> and its five subclasses. The class of an instance is the field
  \<open>kind\<close>; the other fields are the attributes set by \<^verbatim>\<open>OpenAIError.__init__\<close>.
\<close>

datatype error_class =
    OpenAIErrorC
  | RateLimitErrorC
  | AuthenticationErrorC
  | InvalidRequestErrorC
  | ServiceUnavailableErrorC
  | ContextLengthExceededErrorC

record openai_error =
  kind :: error_class
  message :: string
  status_code :: "int option"
  retryable :: bool
  retry_after :: "int option"

definition OpenAIError :: "string \<Rightarrow> int option \<Rightarrow> bool \<Rightarrow> int option \<Rightarrow> openai_error" where
  "OpenAIError msg sc r ra =
     \<lparr>kind = OpenAIErrorC, message = msg, status_code = sc, retryable = r, retry_after = ra\<rparr>"

definition RateLimitError :: "string \<Rightarrow> int \<Rightarrow> openai_error" where
  "RateLimitError msg ra =
     (OpenAIError msg (Some 429) True (Some ra))\<lparr>kind := RateLimitErrorC\<rparr>"

text \<open>The default of the keyword parameter \<^verbatim>\<open>retry_after\<close> of \<^verbatim>\<open>RateLimitError.__init__\<close>.\<close>

definition RateLimitError_retry_after_default :: int where
  "RateLimitError_retry_after_default = 60"

definition AuthenticationError :: "string \<Rightarrow> openai_error" where
  "AuthenticationError msg =
     (OpenAIError msg (Some 401) False None)\<lparr>kind := AuthenticationErrorC\<rparr>"

definition InvalidRequestError :: "string \<Rightarrow> openai_error" where
  "InvalidRequestError msg =
     (OpenAIError msg (Some 400) False None)\<lparr>kind := InvalidRequestErrorC\<rparr>"

definition ServiceUnavailableError :: "string \<Rightarrow> openai_error" where
  "ServiceUnavailableError msg =
     (OpenAIError msg (Some 503) True (Some 30))\<lparr>kind := ServiceUnavailableErrorC\<rparr>"

definition ContextLengthExceededError :: "string \<Rightarrow> openai_error" where
  "ContextLengthExceededError msg =
     (OpenAIError msg (Some 400) False None)\<lparr>kind := ContextLengthExceededErrorC\<rparr>"


section \<open>classify\_error\<close>

text \<open>
  A caught \<^verbatim>\<open>Exception\<close> is represented by its text \<^verbatim>\<open>str(error)\<close>, the only thing
  \<^verbatim>\<open>classify_error\<close> reads.
\<close>

definition classify_error :: "string \<Rightarrow> openai_error" where
  "classify_error error =
     (let error_str = lower error in
      if str_in ''rate limit'' error_str \<or> str_in ''429'' error_str
        then RateLimitError error RateLimitError_retry_after_default
      else if str_in ''authentication'' error_str \<or> str_in ''401'' error_str
              \<or> str_in ''api key'' error_str
        then AuthenticationError error
      else if str_in ''400'' error_str \<or> str_in ''invalid'' error_str
        then InvalidRequestError error
      else if str_in ''503'' error_str \<or> str_in ''unavailable'' error_str
              \<or> str_in ''timeout'' error_str
        then ServiceUnavailableError error
      else if str_in ''context length'' error_str \<or> str_in ''token limit'' error_str
        then ContextLengthExceededError error
      else OpenAIError error None True None)"


section \<open>with\_retry\<close>

text \<open>
  The wrapped operation is a function of the outside world \<open>'w\<close>: it returns the new
  world and either a value (\<open>Inr\<close>) or the text of the exception it raised (\<open>Inl\<close>).
  Every effect is recorded, in order, as an \<open>event\<close>: \<open>Invoke\<close> for one call of the
  operation, \<open>Sleep d\<close> for \<^verbatim>\<open>asyncio.sleep(d)\<close>, \<open>Acquire\<close> for one call of
  \<^verbatim>\<open>RateLimiter.acquire\<close>. Delays are Python floats, idealised as reals.

  \<open>retry_loop\<close> is the \<^verbatim>\<open>for attempt in range(max_retries + 1)\<close> loop from a given
  \<open>attempt\<close> on, with the loop variable \<open>last_error\<close>; the code after the loop is its
  last branch.
\<close>

datatype event = Invoke | Sleep real | Acquire

function retry_loop ::
  "('w \<Rightarrow> (string + 'a) \<times> 'w) \<Rightarrow> int \<Rightarrow> real \<Rightarrow> bool \<Rightarrow> int \<Rightarrow> string option \<Rightarrow> 'w
     \<Rightarrow> (openai_error + 'a) \<times> event list \<times> 'w" where
  "retry_loop func max_retries base_delay exponential_backoff attempt last_error w =
     (if attempt < max_retries + 1 then
        (case func w of
           (Inr v, w') \<Rightarrow> (Inr v, [Invoke], w')
         | (Inl e, w') \<Rightarrow>
             (let classified_error = classify_error e in
              if \<not> retryable classified_error then (Inl classified_error, [Invoke], w')
              else if attempt \<ge> max_retries then (Inl classified_error, [Invoke], w')
              else
                (let delay =
                   (case retry_after classified_error of
                      Some ra \<Rightarrow>
                        if ra \<noteq> 0 then real_of_int ra
                        else if exponential_backoff then base_delay * 2 ^ nat attempt
                        else base_delay
                    | None \<Rightarrow>
                        if exponential_backoff then base_delay * 2 ^ nat attempt
                        else base_delay)
                 in (case retry_loop func max_retries base_delay exponential_backoff
                            (attempt + 1) (Some e) w' of
                       (res, evs, w'') \<Rightarrow> (res, Invoke # Sleep delay # evs, w'')))))
      else
        (case last_error of
           Some e \<Rightarrow> (Inl (classify_error e), [], w)
         | None \<Rightarrow> (Inl (OpenAIError ''Unexpected error in retry logic'' None False None), [], w)))"
  by pat_completeness auto
termination
  by (relation "measure (\<lambda>(func, max_retries, base_delay, eb, attempt, last_error, w).
        nat (max_retries + 1 - attempt))") auto

definition with_retry ::
  "('w \<Rightarrow> (string + 'a) \<times> 'w) \<Rightarrow> int \<Rightarrow> real \<Rightarrow> bool \<Rightarrow> 'w
     \<Rightarrow> (openai_error + 'a) \<times> event list \<times> 'w" where
  "with_retry func max_retries base_delay exponential_backoff w =
     retry_loop func max_retries base_delay exponential_backoff 0 None w"

declare retry_loop.simps [simp del]


definition calls :: "event list \<Rightarrow> nat" where
  "calls evs = length (filter (\<lambda>ev. ev = Invoke) evs)"


section \<open>History management (lib/ai/openai\_service.py)\<close>

datatype role = System | User | Assistant | Tool

record tool_call =
  tc_id :: string
  tc_name :: string
  tc_arguments :: string

record chat_message =
  m_role :: role
  m_content :: string
  m_name :: "string option"
  m_tool_call_id :: "string option"
  m_tool_calls :: "tool_call list option"

text \<open>The dataclass constructor with its defaults: only role and content are given.\<close>

definition ChatMessage :: "role \<Rightarrow> string \<Rightarrow> chat_message" where
  "ChatMessage r c = \<lparr>m_role = r, m_content = c, m_name = None, m_tool_call_id = None,
                 m_tool_calls = None\<rparr>"

definition estimate_tokens :: "string \<Rightarrow> int" where
  "estimate_tokens text = max 1 (int (length text) div 4)"

text \<open>The sum of the token estimates of the contents of a list of messages.\<close>

definition estimated_tokens :: "chat_message list \<Rightarrow> int" where
  "estimated_tokens ms = sum_list (map (\<lambda>m. estimate_tokens (m_content m)) ms)"

text \<open>
  \<open>trim_walk\<close> is the loop \<^verbatim>\<open>for message in reversed(other_messages)\<close> with its
  variables \<open>current_tokens\<close> and \<open>trimmed_other\<close>; \<^verbatim>\<open>insert(0, message)\<close> puts the
  message in front.
\<close>

fun trim_walk :: "chat_message list \<Rightarrow> int \<Rightarrow> int \<Rightarrow> chat_message list \<Rightarrow> chat_message list" where
  "trim_walk [] remaining_tokens current_tokens trimmed_other = trimmed_other"
| "trim_walk (msg # rest) remaining_tokens current_tokens trimmed_other =
     (let msg_tokens = estimate_tokens (m_content msg) in
      if current_tokens + msg_tokens > remaining_tokens then trimmed_other
      else trim_walk rest remaining_tokens (current_tokens + msg_tokens)
             (msg # trimmed_other))"

definition trim_conversation_history :: "chat_message list \<Rightarrow> int \<Rightarrow> chat_message list" where
  "trim_conversation_history messages max_tokens =
     (let system_messages = filter (\<lambda>m. m_role m = System) messages;
          other_messages = filter (\<lambda>m. m_role m \<noteq> System) messages;
          system_tokens = sum_list (map (\<lambda>m. estimate_tokens (m_content m)) system_messages);
          remaining_tokens = max_tokens - system_tokens
      in system_messages @ trim_walk (rev other_messages) remaining_tokens 0 [])"


section \<open>Tool dispatch (main.py, \_execute\_tool)\<close>

text \<open>
  A tool returns a Python dict, modelled as an association list from keys to values; a
  value is a string or some other object of type \<open>'v\<close>. A handler applied to the decoded
  arguments (including the binding of \<^verbatim>\<open>**tool_input\<close> to its parameters) either returns
  a dict (\<open>Inr\<close>) or raises an \<^verbatim>\<open>Exception\<close>, represented by its text (\<open>Inl\<close>).
\<close>

datatype 'v pyval = PyStr string | PyObj 'v

type_synonym 'v pydict = "(string \<times> 'v pyval) list"

record ('a, 'v) toolset =
  calculate_roi :: "'a \<Rightarrow> string + 'v pydict"
  forecast_sales :: "'a \<Rightarrow> string + 'v pydict"
  calculate_pnl :: "'a \<Rightarrow> string + 'v pydict"
  generate_balance_sheet :: "'a \<Rightarrow> string + 'v pydict"
  generate_cash_flow_statement :: "'a \<Rightarrow> string + 'v pydict"
  analyze_break_even :: "'a \<Rightarrow> string + 'v pydict"

text \<open>The body of the \<^verbatim>\<open>try\<close> block: \<open>Inl\<close> is an exception raised inside it.\<close>

definition execute_tool_try :: "('a, 'v) toolset \<Rightarrow> string \<Rightarrow> 'a \<Rightarrow> string + 'v pydict" where
  "execute_tool_try tools tool_name tool_input =
     (if tool_name = ''calculate_roi'' then calculate_roi tools tool_input
      else if tool_name = ''forecast_sales'' then forecast_sales tools tool_input
      else if tool_name = ''calculate_pnl'' then calculate_pnl tools tool_input
      else if tool_name = ''generate_balance_sheet'' then generate_balance_sheet tools tool_input
      else if tool_name = ''generate_cash_flow_statement''
        then generate_cash_flow_statement tools tool_input
      else if tool_name = ''analyze_break_even'' then analyze_break_even tools tool_input
      else Inl (''Unknown tool: '' @ tool_name))"

text \<open>
  The whole method: \<open>Inr\<close> is the returned dict, \<open>Inl\<close> would be an exception that
  leaves \<^verbatim>\<open>_execute_tool\<close>.
\<close>

definition execute_tool :: "('a, 'v) toolset \<Rightarrow> string \<Rightarrow> 'a \<Rightarrow> string + 'v pydict" where
  "execute_tool tools tool_name tool_input =
     (case execute_tool_try tools tool_name tool_input of
        Inr result \<Rightarrow> Inr result
      | Inl e \<Rightarrow> Inr [(''error'', PyStr e), (''tool_name'', PyStr tool_name)])"


text \<open>
  The registry of the specification: the static mapping from tool names to handlers,
  in the order of the \<^verbatim>\<open>if\<close>/\<^verbatim>\<open>elif\<close> chain.
\<close>

definition registry :: "('a, 'v) toolset \<Rightarrow> (string \<times> ('a \<Rightarrow> string + 'v pydict)) list" where
  "registry tools =
     [(''calculate_roi'', calculate_roi tools),
      (''forecast_sales'', forecast_sales tools),
      (''calculate_pnl'', calculate_pnl tools),
      (''generate_balance_sheet'', generate_balance_sheet tools),
      (''generate_cash_flow_statement'', generate_cash_flow_statement tools),
      (''analyze_break_even'', analyze_break_even tools)]"

text \<open>A tool set for examples: one handler returns a report, the others raise.\<close>

definition failing_tools :: "(unit, unit) toolset" where
  "failing_tools =
     \<lparr>calculate_roi = (\<lambda>_. Inl ''investment must be positive''),
      forecast_sales = (\<lambda>_. Inr [(''formatted_output'', PyStr ''report'')]),
      calculate_pnl = (\<lambda>_. Inl ''p''),
      generate_balance_sheet = (\<lambda>_. Inl ''b''),
      generate_cash_flow_statement = (\<lambda>_. Inl ''c''),
      analyze_break_even = (\<lambda>_. Inl ''a'')\<rparr>"


section \<open>The conversation driver (main.py, DexterAgent.chat)\<close>

record openai_response =
  r_content :: string
  r_tokens_used :: int
  r_model :: string
  r_finish_reason :: string
  r_tool_calls :: "tool_call list option"

text \<open>
  What the driver is given: the completion service (one request: the new world and a
  response or the text of the exception raised), the tool handlers, \<^verbatim>\<open>json.loads\<close>
  with the empty dict the driver falls back to, \<^verbatim>\<open>json.dumps\<close> (\<open>Inl\<close> when it raises)
  and the system prompt. \<^verbatim>\<open>json.loads\<close> returns the decoded value, raises
  \<^verbatim>\<open>JSONDecodeError\<close>, or raises another exception (a \<^verbatim>\<open>ValueError\<close> that is not a
  \<^verbatim>\<open>JSONDecodeError\<close>, a \<^verbatim>\<open>RecursionError\<close>), given by its text.
\<close>

datatype 'a loads_result = Loaded 'a | JSONDecodeError | LoadsError string

record ('w, 'a, 'v) environment =
  completions_create :: "chat_message list \<Rightarrow> 'w \<Rightarrow> (string + openai_response) \<times> 'w"
  handlers :: "('a, 'v) toolset"
  json_loads :: "string \<Rightarrow> 'a loads_result"
  empty_input :: 'a
  json_dumps :: "'v pydict \<Rightarrow> string + string"
  system_prompt :: string

record agent =
  conversation_history :: "chat_message list"
  turn_count :: int

text \<open>
  The chunks the generator yields, by the statement that yields them: the response text,
  the tool notice (\<^verbatim>\<open>[Verwende Tool: name]\<close>), a tool's \<^verbatim>\<open>formatted_output\<close>, the notice of
  an \<^verbatim>\<open>OpenAIError\<close> (with \<^verbatim>\<open>e.message\<close>), the notice of any other exception (with
  \<^verbatim>\<open>str(e)\<close>), and the notice that the maximal number of iterations is reached.
\<close>

datatype 'v chunk =
    Content string
  | ToolNotice string
  | FormattedOutput "'v pyval"
  | ErrorNotice string
  | UnexpectedErrorNotice string
  | MaxIterationsNotice

definition generate_response ::
  "('w, 'a, 'v) environment \<Rightarrow> chat_message list \<Rightarrow> 'w \<Rightarrow> (string + openai_response) \<times> 'w" where
  "generate_response env messages w =
     (case completions_create env messages w of
        (Inr response, w') \<Rightarrow> (Inr response, w')
      | (Inl e, w') \<Rightarrow> (Inl (''Fehler bei OpenAI API Call: '' @ e), w'))"

text \<open>\<^verbatim>\<open>@retry_on_error(max_retries=3, base_delay=1.0)\<close>, exponential back-off by default.\<close>

definition call_openai ::
  "('w, 'a, 'v) environment \<Rightarrow> chat_message list \<Rightarrow> 'w
     \<Rightarrow> (openai_error + openai_response) \<times> event list \<times> 'w" where
  "call_openai env messages w = with_retry (generate_response env messages) 3 1 True w"

text \<open>
  The \<^verbatim>\<open>try\<close> block around \<^verbatim>\<open>json.loads\<close>: a \<^verbatim>\<open>JSONDecodeError\<close> is caught and gives the
  empty dict; any other exception leaves the block (\<open>Inl\<close>).
\<close>

definition parse_arguments :: "('w, 'a, 'v) environment \<Rightarrow> string \<Rightarrow> string + 'a" where
  "parse_arguments env arguments =
     (case json_loads env arguments of
        Loaded d \<Rightarrow> Inr d
      | JSONDecodeError \<Rightarrow> Inr (empty_input env)
      | LoadsError e \<Rightarrow> Inl e)"

text \<open>
  The loop over the requested tool calls: the chunks yielded, the history, and the text of
  an exception that left the loop, if any.
\<close>

fun run_tool_calls ::
  "('w, 'a, 'v) environment \<Rightarrow> tool_call list \<Rightarrow> chat_message list
     \<Rightarrow> 'v chunk list \<times> chat_message list \<times> string option" where
  "run_tool_calls env [] history = ([], history, None)"
| "run_tool_calls env (tc # rest) history =
     (let tool_name = tc_name tc;
          tool_call_id = tc_id tc
      in case parse_arguments env (tc_arguments tc) of
           Inl e \<Rightarrow> ([], history, Some e)
         | Inr tool_input \<Rightarrow>
            (case execute_tool (handlers env) tool_name tool_input of
               Inl e \<Rightarrow> ([ToolNotice tool_name], history, Some e)
             | Inr tool_result \<Rightarrow>
                 (let yielded = ToolNotice tool_name #
                        (case map_of tool_result ''formatted_output'' of
                           Some v \<Rightarrow> [FormattedOutput v]
                         | None \<Rightarrow> [])
                  in case json_dumps env tool_result of
                       Inl e \<Rightarrow> (yielded, history, Some e)
                     | Inr text \<Rightarrow>
                         (case run_tool_calls env rest
                                 (history @ [\<lparr>m_role = Tool, m_content = text,
                                    m_name = Some tool_name,
                                    m_tool_call_id = Some tool_call_id,
                                    m_tool_calls = None\<rparr>]) of
                            (out, history', exn) \<Rightarrow> (yielded @ out, history', exn)))))"

definition max_iterations :: int where
  "max_iterations = 10"

text \<open>
  The \<^verbatim>\<open>while iteration < max_iterations\<close> loop. It returns the chunks yielded, the
  value of \<open>iteration\<close> when the loop is left, the history, the events and the world.
\<close>

function chat_loop ::
  "('w, 'a, 'v) environment \<Rightarrow> int \<Rightarrow> chat_message list \<Rightarrow> 'w
     \<Rightarrow> 'v chunk list \<times> int \<times> chat_message list \<times> event list \<times> 'w" where
  "chat_loop env iteration history w =
     (if iteration < max_iterations then
        (case call_openai env history w of
           (Inl e, evs, w') \<Rightarrow> ([ErrorNotice (message e)], iteration + 1, history, evs, w')
         | (Inr response, evs, w') \<Rightarrow>
             if r_finish_reason response = ''stop'' then
               (if r_content response \<noteq> [] then
                  ([Content (r_content response)], iteration + 1,
                   history @ [\<lparr>m_role = Assistant, m_content = r_content response,
                      m_name = None, m_tool_call_id = None, m_tool_calls = None\<rparr>], evs, w')
                else ([], iteration + 1, history, evs, w'))
             else if r_finish_reason response = ''tool_calls''
                     \<and> r_tool_calls response \<noteq> None \<and> r_tool_calls response \<noteq> Some [] then
               (case run_tool_calls env (the (r_tool_calls response))
                       (history @ [\<lparr>m_role = Assistant, m_content = [],
                          m_name = None, m_tool_call_id = None,
                          m_tool_calls = r_tool_calls response\<rparr>]) of
                  (out, history', Some e) \<Rightarrow>
                    (out @ [UnexpectedErrorNotice e], iteration + 1, history', evs, w')
                | (out, history', None) \<Rightarrow>
                    (case chat_loop env (iteration + 1) history' w' of
                       (out', iteration', history'', evs', w'') \<Rightarrow>
                         (out @ out', iteration', history'', evs @ evs', w'')))
             else
               (if r_content response \<noteq> [] then [Content (r_content response)] else [],
                iteration + 1, history, evs, w'))
      else ([], iteration, history, [], w))"
  by pat_completeness auto
termination
  by (relation "measure (\<lambda>(env, iteration, history, w). nat (max_iterations - iteration))") auto

declare chat_loop.simps [simp del]

definition chat ::
  "('w, 'a, 'v) environment \<Rightarrow> string \<Rightarrow> agent \<Rightarrow> 'w
     \<Rightarrow> 'v chunk list \<times> agent \<times> int \<times> event list \<times> 'w" where
  "chat env user_message self w =
     (let turn = turn_count self + 1;
          seeded =
            (if conversation_history self = []
             then [\<lparr>m_role = System, m_content = system_prompt env, m_name = None,
                     m_tool_call_id = None, m_tool_calls = None\<rparr>]
             else conversation_history self);
          history = seeded @ [\<lparr>m_role = User, m_content = user_message, m_name = None,
                     m_tool_call_id = None, m_tool_calls = None\<rparr>]
      in case chat_loop env 0 history w of
           (out, iteration, history', evs, w') \<Rightarrow>
             (out @ (if iteration \<ge> max_iterations then [MaxIterationsNotice] else []),
              \<lparr>conversation_history = history', turn_count = turn\<rparr>, iteration, evs, w'))"


text \<open>The components of the result of \<open>chat\<close>.\<close>

definition chat_output ::
  "('w, 'a, 'v) environment \<Rightarrow> string \<Rightarrow> agent \<Rightarrow> 'w \<Rightarrow> 'v chunk list" where
  "chat_output env user_message self w = fst (chat env user_message self w)"

definition chat_iterations ::
  "('w, 'a, 'v) environment \<Rightarrow> string \<Rightarrow> agent \<Rightarrow> 'w \<Rightarrow> int" where
  "chat_iterations env user_message self w = fst (snd (snd (chat env user_message self w)))"

definition chat_events ::
  "('w, 'a, 'v) environment \<Rightarrow> string \<Rightarrow> agent \<Rightarrow> 'w \<Rightarrow> event list" where
  "chat_events env user_message self w =
     fst (snd (snd (snd (chat env user_message self w))))"



text \<open>
  A completion service for examples: its first \<open>n\<close> responses request the tool
  \<^verbatim>\<open>forecast_sales\<close>, every later response is the final text \<open>Done\<close>. The world is the
  number of requests served.
\<close>

definition tool_calls_response :: openai_response where
  "tool_calls_response =
     \<lparr>r_content = [], r_tokens_used = 0, r_model = ''gpt-4'', r_finish_reason = ''tool_calls'',
      r_tool_calls = Some [\<lparr>tc_id = ''call_1'', tc_name = ''forecast_sales'',
                            tc_arguments = ''{}''\<rparr>]\<rparr>"

definition stop_response :: openai_response where
  "stop_response =
     \<lparr>r_content = ''Done'', r_tokens_used = 0, r_model = ''gpt-4'', r_finish_reason = ''stop'',
      r_tool_calls = None\<rparr>"

definition scripted_env :: "nat \<Rightarrow> (nat, unit, unit) environment" where
  "scripted_env n =
     \<lparr>completions_create =
        (\<lambda>messages served.
           (Inr (if served < n then tool_calls_response else stop_response), Suc served)),
      handlers = failing_tools,
      json_loads = (\<lambda>_. Loaded ()),
      empty_input = (),
      json_dumps = (\<lambda>_. Inr ''{}''),
      system_prompt = ''You are Dexter.''\<rparr>"

definition fresh_agent :: agent where
  "fresh_agent = \<lparr>conversation_history = [], turn_count = 0\<rparr>"


text \<open>
  A completion service that answers every request with a non-empty list of tool calls,
  in an environment where \<^verbatim>\<open>json.dumps\<close> does not raise and \<^verbatim>\<open>json.loads\<close> raises
  nothing but \<^verbatim>\<open>JSONDecodeError\<close>.
\<close>

definition always_requests_tools :: "('w, 'a, 'v) environment \<Rightarrow> bool" where
  "always_requests_tools env =
     ((\<forall>messages w. \<exists>response w'.
          completions_create env messages w = (Inr response, w')
        \<and> r_finish_reason response = ''tool_calls''
        \<and> r_tool_calls response \<noteq> None \<and> r_tool_calls response \<noteq> Some [])
      \<and> (\<forall>d. \<exists>text. json_dumps env d = Inr text)
      \<and> (\<forall>arguments e. json_loads env arguments \<noteq> LoadsError e))"


section \<open>The rate limiter (lib/ai/error\_handler.py, RateLimiter)\<close>

record rate_limiter =
  max_requests :: int
  time_window :: real
  requests :: "real list"

definition RateLimiter :: "int \<Rightarrow> real \<Rightarrow> rate_limiter" where
  "RateLimiter mr tw = \<lparr>max_requests = mr, time_window = tw, requests = []\<rparr>"

datatype py_error = IndexError

text \<open>
  \<open>acquire lag k now self\<close>: \<open>now\<close> is what \<^verbatim>\<open>time.time()\<close> returns in this call. After
  \<^verbatim>\<open>asyncio.sleep(wait_time)\<close> the recursive call reads the clock at
  \<open>now + wait_time + lag k\<close>, where \<open>lag k\<close> is the time the \<open>k\<close>-th sleep and the code
  around it took beyond \<open>wait_time\<close>. The call may recurse for ever, so its result is
  an option: \<open>None\<close> when it does not return, \<open>Some (Inl IndexError)\<close> when
  \<^verbatim>\<open>self.requests[0]\<close> raises, \<open>Some (Inr self')\<close> when it returns with the limiter
  updated to \<open>self'\<close>.
\<close>

partial_function (option) acquire ::
  "(nat \<Rightarrow> real) \<Rightarrow> nat \<Rightarrow> real \<Rightarrow> rate_limiter \<Rightarrow> (py_error + rate_limiter) option" where
  "acquire lag k now self =
     (let cutoff = now - time_window self;
          self1 = self\<lparr>requests := filter (\<lambda>ts. ts > cutoff) (requests self)\<rparr>
      in if int (length (requests self1)) \<ge> max_requests self1 then
           (case requests self1 of
              [] \<Rightarrow> Some (Inl IndexError)
            | oldest # _ \<Rightarrow>
                (let wait_time = time_window self1 - (now - oldest) in
                 if wait_time > 0
                 then acquire lag (Suc k) (now + wait_time + lag k) self1
                 else Some (Inr (self1\<lparr>requests := requests self1 @ [now]\<rparr>))))
         else Some (Inr (self1\<lparr>requests := requests self1 @ [now]\<rparr>)))"


section \<open>Properties of the error classifier\<close>

lemma startswith_prefix: "startswith hay needle = prefix needle hay"
  by (induction hay needle rule: startswith.induct) auto

lemma str_in_sublist: "str_in needle hay = sublist needle hay"
  by (induction hay) (auto simp: sublist_Cons_right startswith_prefix)

lemma map_eq_mid:
  "map f s = ps @ m @ ss \<Longrightarrow> \<exists>pre mid post. s = pre @ mid @ post \<and> map f mid = m"
proof -
  assume h: "map f s = ps @ m @ ss"
  let ?pre = "take (length ps) s"
  let ?mid = "take (length m) (drop (length ps) s)"
  let ?post = "drop (length m) (drop (length ps) s)"
  have "s = ?pre @ ?mid @ ?post" by (simp only: append_take_drop_id)
  moreover have "map f ?mid = take (length m) (drop (length ps) (map f s))"
    by (simp add: take_map drop_map)
  then have "map f ?mid = m" using h by simp
  ultimately show ?thesis by blast
qed

text \<open>
  The code's \<open>lower_chr\<close> against the alphabet: it sends an upper-case letter to its
  lower-case form and keeps every other character (checked on all 256 characters).
\<close>

lemma lower_chr_table:
  "\<forall>c. lower_chr c = (case map_of letter_pairs c of Some l \<Rightarrow> l | None \<Rightarrow> c)"
  by code_simp

lemma letter_pairs_keys: "map fst letter_pairs = upper_letters"
  by (simp add: letter_pairs_def upper_letters_def lower_letters_def)

lemma letter_pairs_distinct: "distinct (map fst letter_pairs)"
  unfolding letter_pairs_keys by (simp add: upper_letters_def)

lemma lower_chr_same_letter:
  assumes "d \<notin> set upper_letters"
  shows "lower_chr c = d \<longleftrightarrow> same_letter c d"
proof
  assume l: "lower_chr c = d"
  show "same_letter c d"
  proof (cases "map_of letter_pairs c")
    case None
    with l lower_chr_table show ?thesis by (simp add: same_letter_def)
  next
    case (Some x)
    with l lower_chr_table have "map_of letter_pairs c = Some d" by simp
    then have "(c, d) \<in> set letter_pairs" by (rule map_of_SomeD)
    then show ?thesis by (simp add: same_letter_def)
  qed
next
  assume "same_letter c d"
  then consider "c = d" | "(c, d) \<in> set letter_pairs" | "(d, c) \<in> set letter_pairs"
    unfolding same_letter_def by blast
  then show "lower_chr c = d"
  proof cases
    case 1
    from assms have "d \<notin> fst ` set letter_pairs"
      using letter_pairs_keys by (metis set_map)
    then have "map_of letter_pairs d = None" by (simp add: map_of_eq_None_iff)
    with 1 lower_chr_table show ?thesis by simp
  next
    case 2
    from map_of_is_SomeI [OF letter_pairs_distinct 2] lower_chr_table
    show ?thesis by simp
  next
    case 3
    then have "d \<in> fst ` set letter_pairs" by force
    with assms letter_pairs_keys show ?thesis by (metis set_map)
  qed
qed

lemma lower_same_letter:
  "list_all (\<lambda>d. d \<notin> set upper_letters) marker \<Longrightarrow>
     lower mid = marker \<longleftrightarrow> list_all2 same_letter mid marker"
proof (induction mid arbitrary: marker)
  case Nil
  then show ?case by (auto simp: lower_def)
next
  case (Cons c cs)
  show ?case
  proof (cases marker)
    case Nil
    then show ?thesis by (simp add: lower_def)
  next
    case (Cons d ds)
    with Cons.prems have d: "d \<notin> set upper_letters"
      and ds: "list_all (\<lambda>d. d \<notin> set upper_letters) ds" by simp_all
    from Cons.IH [OF ds] lower_chr_same_letter [OF d, of c] Cons
    show ?thesis by (simp add: lower_def)
  qed
qed

lemma str_in_lower_iff:
  assumes "list_all (\<lambda>d. d \<notin> set upper_letters) marker"
  shows "str_in marker (lower s) = ci_substring marker s"
proof
  assume "str_in marker (lower s)"
  then obtain ps ss where "map lower_chr s = ps @ marker @ ss"
    by (auto simp: str_in_sublist sublist_def lower_def)
  from map_eq_mid [OF this] obtain pre mid post
    where "s = pre @ mid @ post" and "lower mid = marker"
    by (auto simp: lower_def)
  with lower_same_letter [OF assms] show "ci_substring marker s"
    unfolding ci_substring_def by blast
next
  assume "ci_substring marker s"
  then obtain pre mid post where "s = pre @ mid @ post" and "list_all2 same_letter mid marker"
    by (auto simp: ci_substring_def)
  with lower_same_letter [OF assms] have "s = pre @ mid @ post" and "lower mid = marker"
    by simp_all
  then have "lower s = lower pre @ marker @ lower post"
    by (simp add: lower_def)
  then show "str_in marker (lower s)"
    unfolding str_in_sublist sublist_def by blast
qed

lemma markers_lower_case:
  "list_all (\<lambda>d. d \<notin> set upper_letters) ''rate limit''"
  "list_all (\<lambda>d. d \<notin> set upper_letters) ''429''"
  "list_all (\<lambda>d. d \<notin> set upper_letters) ''authentication''"
  "list_all (\<lambda>d. d \<notin> set upper_letters) ''401''"
  "list_all (\<lambda>d. d \<notin> set upper_letters) ''api key''"
  "list_all (\<lambda>d. d \<notin> set upper_letters) ''400''"
  "list_all (\<lambda>d. d \<notin> set upper_letters) ''invalid''"
  "list_all (\<lambda>d. d \<notin> set upper_letters) ''503''"
  "list_all (\<lambda>d. d \<notin> set upper_letters) ''unavailable''"
  "list_all (\<lambda>d. d \<notin> set upper_letters) ''timeout''"
  "list_all (\<lambda>d. d \<notin> set upper_letters) ''context length''"
  "list_all (\<lambda>d. d \<notin> set upper_letters) ''token limit''"
  by (simp_all add: upper_letters_def)

lemmas marker_tests = markers_lower_case [THEN str_in_lower_iff]

text \<open>The inputs of the repository's own tests of the classifier, and one in capitals.\<close>

lemma classify_error_examples:
  "kind (classify_error ''Error 429: Rate limit'') = RateLimitErrorC"
  "kind (classify_error ''Authentication failed'') = AuthenticationErrorC"
  "kind (classify_error ''Error 400: Invalid request'') = InvalidRequestErrorC"
  "kind (classify_error ''SERVICE UNAVAILABLE'') = ServiceUnavailableErrorC"
  by code_simp+


subsection \<open>The precedence of the markers\<close>

text \<open>
  Claim C3. For every error text, \<open>classify_error\<close> tests the markers as
  case-insensitive substrings in the fixed order rate limit, authentication, invalid
  request, service unavailable, context length, and the first group that matches decides:
  RateLimitError (retryable, retry\_after 60), AuthenticationError (not retryable),
  InvalidRequestError (not retryable), ServiceUnavailableError (retryable, retry\_after 30),
  ContextLengthExceededError (not retryable), and otherwise a plain OpenAIError marked
  retryable. The witness is a text with markers of three groups in other letter case
  than the code's markers, classified by the first.
\<close>

theorem classify_error_first_match:
  "classify_error e =
     (if ci_substring ''rate limit'' e \<or> ci_substring ''429'' e then
        \<lparr>kind = RateLimitErrorC, message = e, status_code = Some 429,
         retryable = True, retry_after = Some 60\<rparr>
      else if ci_substring ''authentication'' e \<or> ci_substring ''401'' e
              \<or> ci_substring ''api key'' e then
        \<lparr>kind = AuthenticationErrorC, message = e, status_code = Some 401,
         retryable = False, retry_after = None\<rparr>
      else if ci_substring ''400'' e \<or> ci_substring ''invalid'' e then
        \<lparr>kind = InvalidRequestErrorC, message = e, status_code = Some 400,
         retryable = False, retry_after = None\<rparr>
      else if ci_substring ''503'' e \<or> ci_substring ''unavailable'' e
              \<or> ci_substring ''timeout'' e then
        \<lparr>kind = ServiceUnavailableErrorC, message = e, status_code = Some 503,
         retryable = True, retry_after = Some 30\<rparr>
      else if ci_substring ''context length'' e \<or> ci_substring ''token limit'' e then
        \<lparr>kind = ContextLengthExceededErrorC, message = e, status_code = Some 400,
         retryable = False, retry_after = None\<rparr>
      else
        \<lparr>kind = OpenAIErrorC, message = e, status_code = None,
         retryable = True, retry_after = None\<rparr>)"
  unfolding classify_error_def Let_def marker_tests
  by (simp add: RateLimitError_def AuthenticationError_def InvalidRequestError_def
      ServiceUnavailableError_def ContextLengthExceededError_def OpenAIError_def
      RateLimitError_retry_after_default_def)


lemma ci_substringI:
  "list_all2 same_letter mid marker \<Longrightarrow> ci_substring marker (pre @ mid @ post)"
  unfolding ci_substring_def by blast

theorem classify_error_first_match_witness:
  "classify_error ''RATE LIMIT exceeded: Invalid API Key, Timeout'' =
     \<lparr>kind = RateLimitErrorC, message = ''RATE LIMIT exceeded: Invalid API Key, Timeout'',
      status_code = Some 429, retryable = True, retry_after = Some 60\<rparr>
   \<and> ci_substring ''rate limit'' ''RATE LIMIT exceeded: Invalid API Key, Timeout''
   \<and> ci_substring ''api key'' ''RATE LIMIT exceeded: Invalid API Key, Timeout''
   \<and> ci_substring ''invalid'' ''RATE LIMIT exceeded: Invalid API Key, Timeout''
   \<and> ci_substring ''timeout'' ''RATE LIMIT exceeded: Invalid API Key, Timeout''"
proof -
  have r: "ci_substring ''rate limit'' ''RATE LIMIT exceeded: Invalid API Key, Timeout''"
    unfolding marker_tests [symmetric] by code_simp
  have a: "ci_substring ''api key'' ''RATE LIMIT exceeded: Invalid API Key, Timeout''"
    unfolding marker_tests [symmetric] by code_simp
  have i: "ci_substring ''invalid'' ''RATE LIMIT exceeded: Invalid API Key, Timeout''"
    unfolding marker_tests [symmetric] by code_simp
  have t: "ci_substring ''timeout'' ''RATE LIMIT exceeded: Invalid API Key, Timeout''"
    unfolding marker_tests [symmetric] by code_simp
  from r classify_error_first_match [of "''RATE LIMIT exceeded: Invalid API Key, Timeout''"]
  have "classify_error ''RATE LIMIT exceeded: Invalid API Key, Timeout'' =
     \<lparr>kind = RateLimitErrorC, message = ''RATE LIMIT exceeded: Invalid API Key, Timeout'',
      status_code = Some 429, retryable = True, retry_after = Some 60\<rparr>"
    by simp
  with r a i t show ?thesis by blast
qed


subsection \<open>Authentication markers\<close>

lemma sublist_ci_substring:
  assumes "ci_substring marker s" and "sublist part marker"
  shows "ci_substring part s"
proof -
  from assms(1) obtain pre mid post where s: "s = pre @ mid @ post"
    and m: "list_all2 same_letter mid marker"
    by (auto simp: ci_substring_def)
  from assms(2) obtain a b where "marker = a @ part @ b"
    by (auto simp: sublist_def)
  with m have "list_all2 same_letter mid (a @ part @ b)" by simp
  then obtain p1 r1 where mid: "mid = p1 @ r1" and "list_all2 same_letter r1 (part @ b)"
    unfolding list_all2_append2 by blast
  then obtain m1 q1 where r1: "r1 = m1 @ q1" and m1: "list_all2 same_letter m1 part"
    unfolding list_all2_append2 by blast
  from s mid r1 have "s = (pre @ p1) @ m1 @ (q1 @ post)" by simp
  with m1 show ?thesis
    unfolding ci_substring_def by blast
qed

lemma api_key_part: "sublist ''api key'' ''invalid api key''"
  unfolding sublist_def by (rule exI [of _ "''invalid ''"], rule exI [of _ "[]"]) simp

text \<open>
  Claim C8, as amended. For every error text that contains \<open>401\<close> or \<open>invalid api key\<close>
  (case-insensitively) and contains neither of the rate-limit markers \<open>rate limit\<close> and
  \<open>429\<close>, \<open>classify_error\<close> returns an AuthenticationError, which is not retryable.
  The rate-limit markers are tested first, so a text that has one of them as well is a
  RateLimitError.
\<close>

theorem classify_error_auth:
  assumes "ci_substring ''401'' e \<or> ci_substring ''invalid api key'' e"
    and "\<not> ci_substring ''rate limit'' e" and "\<not> ci_substring ''429'' e"
  shows "kind (classify_error e) = AuthenticationErrorC \<and> \<not> retryable (classify_error e)"
proof -
  from assms(1) have "ci_substring ''401'' e \<or> ci_substring ''api key'' e"
    using sublist_ci_substring [OF _ api_key_part] by blast
  with assms(2,3) show ?thesis
    unfolding classify_error_def Let_def marker_tests
    by (auto simp: AuthenticationError_def OpenAIError_def)
qed

theorem classify_error_auth_witness:
  "(ci_substring ''401'' ''INVALID API KEY'' \<or> ci_substring ''invalid api key'' ''INVALID API KEY'')
   \<and> \<not> ci_substring ''rate limit'' ''INVALID API KEY''
   \<and> \<not> ci_substring ''429'' ''INVALID API KEY''
   \<and> kind (classify_error ''INVALID API KEY'') = AuthenticationErrorC
   \<and> \<not> retryable (classify_error ''INVALID API KEY'')"
proof -
  have "list_all2 same_letter ''INVALID API KEY'' ''invalid api key''"
    by code_simp
  from ci_substringI [OF this, of "[]" "[]"]
  have a: "ci_substring ''401'' ''INVALID API KEY'' \<or> ci_substring ''invalid api key'' ''INVALID API KEY''"
    by simp
  have b: "\<not> ci_substring ''rate limit'' ''INVALID API KEY''"
    unfolding marker_tests [symmetric] by code_simp
  have c: "\<not> ci_substring ''429'' ''INVALID API KEY''"
    unfolding marker_tests [symmetric] by code_simp
  from classify_error_auth [OF a b c] a b c show ?thesis by blast
qed

text \<open>
  Without the exclusion the statement fails: \<open>401 after 429\<close> contains \<open>401\<close> and is
  classified as a RateLimitError.
\<close>

theorem classify_error_auth_counterexample:
  "\<not> (\<forall>e. ci_substring ''401'' e \<or> ci_substring ''invalid api key'' e \<longrightarrow>
          kind (classify_error e) = AuthenticationErrorC \<and> \<not> retryable (classify_error e))"
proof
  assume h: "\<forall>e. ci_substring ''401'' e \<or> ci_substring ''invalid api key'' e \<longrightarrow>
          kind (classify_error e) = AuthenticationErrorC \<and> \<not> retryable (classify_error e)"
  have "ci_substring ''401'' ([] @ ''401'' @ '' after 429'')"
    by (rule ci_substringI) (simp add: same_letter_def)
  then have "ci_substring ''401'' ''401 after 429''" by simp
  with h have "kind (classify_error ''401 after 429'') = AuthenticationErrorC" by blast
  moreover have "kind (classify_error ''401 after 429'') = RateLimitErrorC"
    by code_simp
  ultimately show False by simp
qed


section \<open>Properties of the history manager\<close>

subsection \<open>The token estimate\<close>

text \<open>
  Claim C7, as amended. For every text, \<open>estimate_tokens\<close> returns the maximum of 1 and
  the floor (not the ceiling) of a quarter of the number of characters.
\<close>

theorem estimate_tokens_floor:
  "estimate_tokens text = max 1 \<lfloor>real (length text) / 4\<rfloor>"
proof -
  have "\<lfloor>real (length text) / 4\<rfloor> = int (length text) div 4"
    using floor_divide_of_nat_eq [of "length text" 4, where ?'a = real] by simp
  then show ?thesis by (simp add: estimate_tokens_def)
qed

text \<open>
  The ceiling differs from the value computed: a text of five characters is estimated at
  one token, and the ceiling of 5/4 is two.
\<close>

theorem estimate_tokens_ceiling_counterexample:
  "\<not> (\<forall>text. estimate_tokens text = max 1 \<lceil>real (length text) / 4\<rceil>)"
proof
  assume "\<forall>text. estimate_tokens text = max 1 \<lceil>real (length text) / 4\<rceil>"
  then have "estimate_tokens ''hello'' = max 1 \<lceil>real (length ''hello'') / 4\<rceil>" by blast
  moreover have "\<lceil>(5::real) / 4\<rceil> = 2" by (simp add: ceiling_eq_iff)
  ultimately show False by (simp add: estimate_tokens_def)
qed


section \<open>Properties of the retry executor\<close>

lemma calls_simps [simp]:
  "calls [] = 0" "calls (Invoke # evs) = Suc (calls evs)"
  "calls (Sleep d # evs) = calls evs" "calls (Acquire # evs) = calls evs"
  "calls (xs @ ys) = calls xs + calls ys"
  by (simp_all add: calls_def)

lemma retry_loop_fail_fast:
  assumes "attempt \<le> max_retries" and "func w = (Inl e, w')"
    and "\<not> retryable (classify_error e)"
  shows "retry_loop func max_retries base_delay eb attempt last_error w =
           (Inl (classify_error e), [Invoke], w')"
  using assms by (subst retry_loop.simps) simp

lemma retry_loop_success:
  assumes "attempt \<le> max_retries" and "func w = (Inr v, w')"
  shows "retry_loop func max_retries base_delay eb attempt last_error w = (Inr v, [Invoke], w')"
  using assms by (subst retry_loop.simps) simp



text \<open>
  Claim C4. For every \<open>max_retries \<ge> 0\<close> and every operation whose call raises an error
  that \<open>classify_error\<close> marks as not retryable, \<open>with_retry\<close> calls the operation
  exactly once, does not sleep, and raises the classified error.
\<close>

theorem with_retry_fail_fast:
  assumes "0 \<le> max_retries" and "func w = (Inl e, w')"
    and "\<not> retryable (classify_error e)"
  shows "\<exists>evs. with_retry func max_retries base_delay exponential_backoff w =
           (Inl (classify_error e), evs, w')
         \<and> calls evs = 1 \<and> evs = [Invoke]"
  using retry_loop_fail_fast [of 0 max_retries func w e w'] assms by (simp add: with_retry_def)

theorem with_retry_fail_fast_witness:
  "(0::int) \<le> 3
   \<and> \<not> retryable (classify_error ''Authentication failed - invalid API key'')
   \<and> (\<exists>evs. with_retry (\<lambda>n::nat. (Inl ''Authentication failed - invalid API key'' :: string + string, Suc n))
              3 1 True 0 =
             (Inl (classify_error ''Authentication failed - invalid API key''), evs, Suc 0)
           \<and> calls evs = 1 \<and> evs = [Invoke])"
proof -
  have r: "\<not> retryable (classify_error ''Authentication failed - invalid API key'')"
    by code_simp
  from with_retry_fail_fast [of 3
      "\<lambda>n::nat. (Inl ''Authentication failed - invalid API key'' :: string + string, Suc n)"
      0 "''Authentication failed - invalid API key''" "Suc 0" 1 True] r
  show ?thesis by simp
qed




section \<open>Properties of trimming\<close>

lemma estimated_tokens_simps [simp]:
  "estimated_tokens [] = 0"
  "estimated_tokens (m # ms) = estimate_tokens (m_content m) + estimated_tokens ms"
  "estimated_tokens (xs @ ys) = estimated_tokens xs + estimated_tokens ys"
  by (simp_all add: estimated_tokens_def)

lemma trim_walk_spec:
  "\<exists>taken rest. xs = taken @ rest
     \<and> trim_walk xs remaining current acc = rev taken @ acc
     \<and> (taken \<noteq> [] \<longrightarrow> current + estimated_tokens taken \<le> remaining)
     \<and> (rest \<noteq> [] \<longrightarrow>
          current + estimated_tokens taken + estimate_tokens (m_content (hd rest)) > remaining)"
proof (induction xs arbitrary: current acc)
  case Nil
  then show ?case by simp
next
  case (Cons x xs)
  show ?case
  proof (cases "current + estimate_tokens (m_content x) > remaining")
    case True
    then have "x # xs = [] @ (x # xs)
       \<and> trim_walk (x # xs) remaining current acc = rev [] @ acc
       \<and> ([] \<noteq> [] \<longrightarrow> current + estimated_tokens [] \<le> remaining)
       \<and> (x # xs \<noteq> [] \<longrightarrow>
          current + estimated_tokens [] + estimate_tokens (m_content (hd (x # xs))) > remaining)"
      by simp
    then show ?thesis by blast
  next
    case False
    from Cons.IH [of "current + estimate_tokens (m_content x)" "x # acc"]
    obtain taken rest where t: "xs = taken @ rest"
      and w: "trim_walk xs remaining (current + estimate_tokens (m_content x)) (x # acc) = rev taken @ x # acc"
      and le: "taken \<noteq> [] \<longrightarrow> current + estimate_tokens (m_content x) + estimated_tokens taken \<le> remaining"
      and gt: "rest \<noteq> [] \<longrightarrow> current + estimate_tokens (m_content x) + estimated_tokens taken
                 + estimate_tokens (m_content (hd rest)) > remaining"
      by blast
    have "x # xs = (x # taken) @ rest
       \<and> trim_walk (x # xs) remaining current acc = rev (x # taken) @ acc
       \<and> (x # taken \<noteq> [] \<longrightarrow> current + estimated_tokens (x # taken) \<le> remaining)
       \<and> (rest \<noteq> [] \<longrightarrow>
          current + estimated_tokens (x # taken) + estimate_tokens (m_content (hd rest)) > remaining)"
      using False t w le gt by (cases "taken = []") (simp_all add: Let_def add.assoc)
    then show ?thesis by blast
  qed
qed

text \<open>
  Claim C6. For every transcript and token budget, \<open>trim_conversation_history\<close> returns
  all system messages (in their original order) followed by \<open>kept\<close>, a suffix of the
  non-system messages in their original order. The system messages are charged first:
  if any message is kept, the system messages and the kept ones together are within
  the budget; and if a non-system message is dropped, adding the most recent dropped one
  (\<open>last older\<close>) would exceed the budget. The witness is the example of the claim: a
  system message of 50 tokens, a budget of 100 and five messages of 30 tokens each leave
  the system message and the most recent message.
\<close>

theorem trim_conversation_history_spec:
  "\<exists>older kept.
      filter (\<lambda>m. m_role m \<noteq> System) messages = older @ kept
    \<and> trim_conversation_history messages max_tokens =
        filter (\<lambda>m. m_role m = System) messages @ kept
    \<and> (kept \<noteq> [] \<longrightarrow>
         estimated_tokens (filter (\<lambda>m. m_role m = System) messages) + estimated_tokens kept
           \<le> max_tokens)
    \<and> (older \<noteq> [] \<longrightarrow>
         estimated_tokens (filter (\<lambda>m. m_role m = System) messages) + estimated_tokens kept
           + estimate_tokens (m_content (last older)) > max_tokens)"
proof -
  let ?sys = "filter (\<lambda>m. m_role m = System) messages"
  let ?others = "filter (\<lambda>m. m_role m \<noteq> System) messages"
  let ?remaining = "max_tokens - estimated_tokens ?sys"
  from trim_walk_spec [of "rev ?others" ?remaining 0 "[]"]
  obtain taken rest where t: "rev ?others = taken @ rest"
    and w: "trim_walk (rev ?others) ?remaining 0 [] = rev taken @ []"
    and le: "taken \<noteq> [] \<longrightarrow> 0 + estimated_tokens taken \<le> ?remaining"
    and gt: "rest \<noteq> [] \<longrightarrow> 0 + estimated_tokens taken + estimate_tokens (m_content (hd rest)) > ?remaining"
    by blast
  from t have o: "?others = rev rest @ rev taken"
    by (metis rev_append rev_rev_ident)
  have et: "estimated_tokens (rev taken) = estimated_tokens taken"
    by (simp add: estimated_tokens_def rev_map [symmetric])
  have "?others = rev rest @ rev taken
    \<and> trim_conversation_history messages max_tokens = ?sys @ rev taken
    \<and> (rev taken \<noteq> [] \<longrightarrow> estimated_tokens ?sys + estimated_tokens (rev taken) \<le> max_tokens)
    \<and> (rev rest \<noteq> [] \<longrightarrow>
         estimated_tokens ?sys + estimated_tokens (rev taken)
           + estimate_tokens (m_content (last (rev rest))) > max_tokens)"
    using o w le gt et
    by (auto simp: trim_conversation_history_def Let_def estimated_tokens_def last_rev)
  then show ?thesis by blast
qed

lemma ChatMessage_simps [simp]: "m_role (ChatMessage r c) = r" "m_content (ChatMessage r c) = c"
  by (simp_all add: ChatMessage_def)

lemma estimate_tokens_replicate [simp]:
  "estimate_tokens (replicate n c) = max 1 (int n div 4)"
  by (simp add: estimate_tokens_def)

theorem trim_conversation_history_spec_witness:
  "trim_conversation_history
     [ChatMessage System (replicate 200 CHR ''s''),
      ChatMessage User (replicate 120 CHR ''a''),
      ChatMessage Assistant (replicate 120 CHR ''b''),
      ChatMessage User (replicate 120 CHR ''c''),
      ChatMessage Assistant (replicate 120 CHR ''d''),
      ChatMessage User (replicate 120 CHR ''e'')] 100
   = [ChatMessage System (replicate 200 CHR ''s''), ChatMessage User (replicate 120 CHR ''e'')]"
proof -
  let ?s = "ChatMessage System (replicate 200 CHR ''s'')"
  let ?a = "ChatMessage User (replicate 120 CHR ''a'')"
  let ?b = "ChatMessage Assistant (replicate 120 CHR ''b'')"
  let ?c = "ChatMessage User (replicate 120 CHR ''c'')"
  let ?d = "ChatMessage Assistant (replicate 120 CHR ''d'')"
  let ?e = "ChatMessage User (replicate 120 CHR ''e'')"
  from trim_conversation_history_spec [of "[?s, ?a, ?b, ?c, ?d, ?e]" 100]
  obtain older kept where o: "[?a, ?b, ?c, ?d, ?e] = older @ kept"
    and r: "trim_conversation_history [?s, ?a, ?b, ?c, ?d, ?e] 100 = [?s] @ kept"
    and le: "kept \<noteq> [] \<longrightarrow> estimated_tokens [?s] + estimated_tokens kept \<le> 100"
    and gt: "older \<noteq> [] \<longrightarrow>
               estimated_tokens [?s] + estimated_tokens kept
                 + estimate_tokens (m_content (last older)) > 100"
    by auto
  from o le gt have "kept = [?e]"
    by (auto simp: append_eq_Cons_conv Cons_eq_append_conv)
  with r show ?thesis by simp
qed


section \<open>Properties of tool dispatch\<close>

lemma execute_tool_try_registry:
  "execute_tool_try tools tool_name tool_input =
     (case map_of (registry tools) tool_name of
        Some handler \<Rightarrow> handler tool_input
      | None \<Rightarrow> Inl (''Unknown tool: '' @ tool_name))"
  by (simp add: execute_tool_try_def registry_def)

text \<open>
  Claim C9. For every tool name and decoded arguments, \<open>execute_tool\<close> returns a dict and
  lets no exception out: for a name that is not in the registry the dict has the error
  text \<open>Unknown tool: name\<close> and the tool name, and nothing else; when the handler raises
  an exception, the dict has the text of the exception and the tool name; and when the
  handler returns a dict, that dict is returned unchanged. Exceptions are instances of
  \<^verbatim>\<open>Exception\<close>, which is what a handler raises and what \<^verbatim>\<open>except Exception\<close> catches.
\<close>

theorem execute_tool_contains:
  "\<exists>result. execute_tool tools tool_name tool_input = Inr result
     \<and> (map_of (registry tools) tool_name = None \<longrightarrow>
          result = [(''error'', PyStr (''Unknown tool: '' @ tool_name)),
                    (''tool_name'', PyStr tool_name)])
     \<and> (\<forall>handler e. map_of (registry tools) tool_name = Some handler
            \<and> handler tool_input = Inl e \<longrightarrow>
          result = [(''error'', PyStr e), (''tool_name'', PyStr tool_name)])
     \<and> (\<forall>handler r. map_of (registry tools) tool_name = Some handler
            \<and> handler tool_input = Inr r \<longrightarrow>
          result = r)"
  unfolding execute_tool_def execute_tool_try_registry
  by (auto split: option.splits sum.splits)

theorem execute_tool_contains_witness:
  "execute_tool failing_tools ''unknown_tool'' () =
     Inr [(''error'', PyStr ''Unknown tool: unknown_tool''), (''tool_name'', PyStr ''unknown_tool'')]
   \<and> execute_tool failing_tools ''calculate_roi'' () =
     Inr [(''error'', PyStr ''investment must be positive''), (''tool_name'', PyStr ''calculate_roi'')]
   \<and> execute_tool failing_tools ''forecast_sales'' () =
     Inr [(''formatted_output'', PyStr ''report'')]"
proof -
  have u: "map_of (registry failing_tools) ''unknown_tool'' = None"
    by (simp add: registry_def)
  have c: "map_of (registry failing_tools) ''calculate_roi'' = Some (calculate_roi failing_tools)"
    by (simp add: registry_def)
  have f: "map_of (registry failing_tools) ''forecast_sales'' = Some (forecast_sales failing_tools)"
    by (simp add: registry_def)
  have c': "calculate_roi failing_tools () = Inl ''investment must be positive''"
    by (simp add: failing_tools_def)
  have f': "forecast_sales failing_tools () = Inr [(''formatted_output'', PyStr ''report'')]"
    by (simp add: failing_tools_def)
  from execute_tool_contains [of failing_tools "''unknown_tool''" "()"] u
  have 1: "execute_tool failing_tools ''unknown_tool'' () =
     Inr [(''error'', PyStr ''Unknown tool: unknown_tool''), (''tool_name'', PyStr ''unknown_tool'')]"
    by auto
  from execute_tool_contains [of failing_tools "''calculate_roi''" "()"] c c'
  have 2: "execute_tool failing_tools ''calculate_roi'' () =
     Inr [(''error'', PyStr ''investment must be positive''), (''tool_name'', PyStr ''calculate_roi'')]"
    by auto
  from execute_tool_contains [of failing_tools "''forecast_sales''" "()"] f f'
  have 3: "execute_tool failing_tools ''forecast_sales'' () =
     Inr [(''formatted_output'', PyStr ''report'')]"
    by auto
  from 1 2 3 show ?thesis by simp
qed


section \<open>Properties of the rate limiter\<close>

lemma filter_filter_gt:
  "(c::real) \<le> c' \<Longrightarrow> filter (\<lambda>ts. ts > c') (filter (\<lambda>ts. ts > c) xs) = filter (\<lambda>ts. ts > c') xs"
  by (induction xs) auto

lemma acquire_returns:
  assumes "1 \<le> max_requests self" and "\<forall>k. 0 \<le> lag k"
  shows "\<exists>self' now'. acquire lag k now self = Some (Inr self') \<and> now \<le> now'
           \<and> self' = self\<lparr>requests :=
                 filter (\<lambda>ts. ts > now' - time_window self) (requests self) @ [now']\<rparr>"
  using assms
proof (induction "length (filter (\<lambda>ts. ts > now - time_window self) (requests self))"
    arbitrary: k now self rule: less_induct)
  case less
  let ?tw = "time_window self"
  let ?reqs1 = "filter (\<lambda>ts. ts > now - ?tw) (requests self)"
  let ?self1 = "self\<lparr>requests := ?reqs1\<rparr>"
  let ?done = "self\<lparr>requests := ?reqs1 @ [now]\<rparr>"
  show ?case
  proof (cases "int (length ?reqs1) \<ge> max_requests self")
    case False
    then have "acquire lag k now self = Some (Inr ?done)"
      by (subst acquire.simps) (simp add: Let_def)
    then show ?thesis by auto
  next
    case True
    with less.prems(1) obtain oldest rest where r: "?reqs1 = oldest # rest"
      by (cases ?reqs1) auto
    let ?wait = "?tw - (now - oldest)"
    show ?thesis
    proof (cases "?wait > 0")
      case False
      with True r have "acquire lag k now self = Some (Inr ?done)"
        by (subst acquire.simps) (simp add: Let_def)
      then show ?thesis by auto
    next
      case w: True
      let ?now2 = "now + ?wait + lag k"
      from True r w have step: "acquire lag k now self = acquire lag (Suc k) ?now2 ?self1"
        by (subst acquire.simps) (simp add: Let_def)
      have ge: "now \<le> ?now2" using w less.prems(2) [rule_format, of k] by simp
      have "oldest \<in> set ?reqs1" using r by simp
      moreover have "\<not> oldest > ?now2 - ?tw" using less.prems(2) [rule_format, of k] by simp
      ultimately have "length (filter (\<lambda>ts. ts > ?now2 - ?tw) ?reqs1) < length ?reqs1"
        by (rule length_filter_less)
      then have "length (filter (\<lambda>ts. ts > ?now2 - time_window ?self1) (requests ?self1))
                   < length ?reqs1" by simp
      from less.hyps [OF this, of "Suc k"] less.prems
      obtain self' now' where a: "acquire lag (Suc k) ?now2 ?self1 = Some (Inr self')"
        and n: "?now2 \<le> now'"
        and s: "self' = ?self1\<lparr>requests :=
                 filter (\<lambda>ts. ts > now' - time_window ?self1) (requests ?self1) @ [now']\<rparr>"
        by auto
      from n ge have "now - ?tw \<le> now' - ?tw" by simp
      from filter_filter_gt [OF this] s
      have s': "self' = self\<lparr>requests := filter (\<lambda>ts. ts > now' - ?tw) (requests self) @ [now']\<rparr>"
        by simp
      from n ge have "now \<le> now'" by simp
      with a step s' have "acquire lag k now self = Some (Inr self') \<and> now \<le> now'
           \<and> self' = self\<lparr>requests :=
                 filter (\<lambda>ts. ts > now' - time_window self) (requests self) @ [now']\<rparr>"
        by simp
      then show ?thesis by blast
    qed
  qed
qed

lemma acquire_index_error:
  "acquire lag k now (RateLimiter 0 tw) = Some (Inl IndexError)"
  by (subst acquire.simps) (simp add: RateLimiter_def Let_def)

text \<open>
  Claim C10. If \<open>max_requests \<ge> 1\<close> (and no sleep ends early: \<open>lag k \<ge> 0\<close>), a call of
  \<open>acquire\<close> on any limiter returns, never with the index error, and what it has done is
  to prune the time stamps that are outside the window at the final clock reading
  \<open>now'\<close> and to record \<open>now'\<close>. On a limiter constructed with \<open>max_requests = 0\<close>
  the first call raises \<^verbatim>\<open>IndexError\<close> at \<^verbatim>\<open>self.requests[0]\<close>: the window is empty and
  \<open>0 \<ge> 0\<close> selects the branch that reads it.
\<close>

theorem acquire_total_iff_positive:
  "(1 \<le> max_requests self \<and> (\<forall>k. 0 \<le> lag k) \<longrightarrow>
      (\<exists>self' now'. acquire lag k now self = Some (Inr self') \<and> now \<le> now'
         \<and> self' = self\<lparr>requests :=
              filter (\<lambda>ts. ts > now' - time_window self) (requests self) @ [now']\<rparr>))
   \<and> acquire lag k now (RateLimiter 0 tw) = Some (Inl IndexError)"
  using acquire_returns [of self lag k now] acquire_index_error [of lag k now tw] by blast

theorem acquire_total_iff_positive_witness:
  "(\<exists>self' now'.
       acquire (\<lambda>_. 0) 0 1 \<lparr>max_requests = 1, time_window = 1, requests = [1/2]\<rparr> = Some (Inr self')
     \<and> 1 \<le> now'
     \<and> self' = \<lparr>max_requests = 1, time_window = 1,
                 requests = filter (\<lambda>ts. ts > now' - 1) [1/2] @ [now']\<rparr>)
   \<and> acquire (\<lambda>_. 0) 0 1 \<lparr>max_requests = 1, time_window = 1, requests = [1/2]\<rparr>
       = Some (Inr \<lparr>max_requests = 1, time_window = 1, requests = [3/2]\<rparr>)
   \<and> acquire (\<lambda>_. 0) 0 1 (RateLimiter 0 1) = Some (Inl IndexError)"
proof -
  let ?self = "\<lparr>max_requests = 1, time_window = 1, requests = [1/2]\<rparr>"
  have pre: "1 \<le> max_requests ?self \<and> (\<forall>k::nat. (0::real) \<le> (\<lambda>_. 0) k)"
    by simp
  note t = acquire_total_iff_positive [of ?self "\<lambda>_. 0" 0 1 1]
  from t pre have a: "\<exists>self' now'.
       acquire (\<lambda>_. 0) 0 1 ?self = Some (Inr self')
     \<and> 1 \<le> now'
     \<and> self' = \<lparr>max_requests = 1, time_window = 1,
                 requests = filter (\<lambda>ts. ts > now' - 1) [1/2] @ [now']\<rparr>"
    by simp
  have b: "acquire (\<lambda>_. 0) 0 1 ?self
       = Some (Inr \<lparr>max_requests = 1, time_window = 1, requests = [3/2]\<rparr>)"
    apply (subst acquire.simps)
    apply (simp add: Let_def)
    apply (subst acquire.simps)
    apply (simp add: Let_def)
    done
  from t have c: "acquire (\<lambda>_. 0) 0 1 (RateLimiter 0 1) = Some (Inl IndexError)"
    by blast
  from a b c show ?thesis by blast
qed


section \<open>Properties of the conversation driver\<close>






lemma chat_loop_stop: "\<not> iteration < max_iterations \<Longrightarrow>
    chat_loop env iteration history w = ([], iteration, history, [], w)"
  by (subst chat_loop.simps) simp

lemma run_tool_calls_no_notice:
  "MaxIterationsNotice \<notin> set (fst (run_tool_calls env tcs history))"
proof (induction tcs arbitrary: history)
  case Nil
  then show ?case by simp
next
  case (Cons tc rest)
  have ih: "\<And>h out h' ex. run_tool_calls env rest h = (out, h', ex)
              \<Longrightarrow> MaxIterationsNotice \<notin> set out"
    using Cons.IH by (metis fst_conv)
  show ?case
    by (auto simp: Let_def split: sum.splits option.splits prod.splits dest: ih)
qed

lemma chat_loop_step_out:
  assumes lt: "iteration < max_iterations" and c: "call_openai env history w = (res, evs, w')"
  shows "(\<exists>out history'. chat_loop env iteration history w = (out, iteration + 1, history', evs, w')
            \<and> MaxIterationsNotice \<notin> set out)
       \<or> (\<exists>out history'. chat_loop env iteration history w =
             (case chat_loop env (iteration + 1) history' w' of
                (out', iteration', history'', evs', w'') \<Rightarrow>
                  (out @ out', iteration', history'', evs @ evs', w''))
            \<and> MaxIterationsNotice \<notin> set out)"
proof (cases res)
  case (Inl e)
  with lt c have "chat_loop env iteration history w =
      ([ErrorNotice (message e)], iteration + 1, history, evs, w')"
    by (subst chat_loop.simps) simp
  moreover have "MaxIterationsNotice \<notin> set [ErrorNotice (message e) :: 'c chunk]" by simp
  ultimately show ?thesis by blast
next
  case (Inr response)
  show ?thesis
  proof (cases "r_finish_reason response = ''stop''")
    case True
    with lt c Inr have "chat_loop env iteration history w =
      (if r_content response \<noteq> [] then
         ([Content (r_content response)], iteration + 1,
          history @ [\<lparr>m_role = Assistant, m_content = r_content response,
             m_name = None, m_tool_call_id = None, m_tool_calls = None\<rparr>], evs, w')
       else ([], iteration + 1, history, evs, w'))"
      by (subst chat_loop.simps) simp
    then show ?thesis by (cases "r_content response \<noteq> []") simp_all
  next
    case nostop: False
    let ?h1 = "history @ [\<lparr>m_role = Assistant, m_content = [],
                          m_name = None, m_tool_call_id = None,
                          m_tool_calls = r_tool_calls response\<rparr>]"
    show ?thesis
    proof (cases "r_finish_reason response = ''tool_calls''
                     \<and> r_tool_calls response \<noteq> None \<and> r_tool_calls response \<noteq> Some []")
      case False
      with nostop lt c Inr have "chat_loop env iteration history w =
        (if r_content response \<noteq> [] then [Content (r_content response)] else [],
                iteration + 1, history, evs, w')"
        by (subst chat_loop.simps) auto
      moreover have "MaxIterationsNotice \<notin>
          set (if r_content response \<noteq> [] then [Content (r_content response) :: 'c chunk] else [])"
        by simp
      ultimately show ?thesis by blast
    next
      case True
      obtain out h2 ex where rt:
        "run_tool_calls env (the (r_tool_calls response)) ?h1 = (out, h2, ex)"
        by (cases "run_tool_calls env (the (r_tool_calls response)) ?h1") auto
      from run_tool_calls_no_notice [of env "the (r_tool_calls response)" ?h1] rt
      have nn: "MaxIterationsNotice \<notin> set out" by simp
      show ?thesis
      proof (cases ex)
        case (Some e)
        with True nostop lt c Inr rt have "chat_loop env iteration history w =
            (out @ [UnexpectedErrorNotice e], iteration + 1, h2, evs, w')"
          by (subst chat_loop.simps) simp
        moreover have "MaxIterationsNotice \<notin> set (out @ [UnexpectedErrorNotice e])"
          using nn by simp
        ultimately show ?thesis by blast
      next
        case None
        with True nostop lt c Inr rt have "chat_loop env iteration history w =
            (case chat_loop env (iteration + 1) h2 w' of
                (out', iteration', history'', evs', w'') \<Rightarrow>
                  (out @ out', iteration', history'', evs @ evs', w''))"
          by (subst chat_loop.simps) simp
        with nn show ?thesis by blast
      qed
    qed
  qed
qed


lemma chat_loop_no_notice:
  "MaxIterationsNotice \<notin> set (fst (chat_loop env iteration history w))"
proof (induction "nat (max_iterations - iteration)" arbitrary: iteration history w)
  case 0
  then have "\<not> iteration < max_iterations" by simp
  from chat_loop_stop [OF this, of env history w] show ?case by simp
next
  case (Suc n)
  then have lt: "iteration < max_iterations" by simp
  obtain res evs w' where c: "call_openai env history w = (res, evs, w')"
    by (cases "call_openai env history w") auto
  from chat_loop_step_out [OF lt c] show ?case
  proof (elim disjE exE conjE)
    fix out history'
    assume "chat_loop env iteration history w = (out, iteration + 1, history', evs, w')"
      and "MaxIterationsNotice \<notin> set out"
    then show ?thesis by simp
  next
    fix out history'
    assume e: "chat_loop env iteration history w =
             (case chat_loop env (iteration + 1) history' w' of
                (out', iteration', history'', evs', w'') \<Rightarrow>
                  (out @ out', iteration', history'', evs @ evs', w''))"
      and nn: "MaxIterationsNotice \<notin> set out"
    have "n = nat (max_iterations - (iteration + 1))" using Suc.hyps(2) by simp
    from Suc.hyps(1) [OF this, of history' w'] nn show ?thesis
      unfolding e by (cases "chat_loop env (iteration + 1) history' w'") simp
  qed
qed


text \<open>
  What the code does: the notice follows the chunks of the loop exactly when the counter
  \<open>iteration\<close> has reached \<open>max_iterations\<close>, however the loop was left.
\<close>

lemma chat_unfold:
  "chat env user_message self w =
     (case chat_loop env 0
        ((if conversation_history self = []
          then [\<lparr>m_role = System, m_content = system_prompt env, m_name = None,
                  m_tool_call_id = None, m_tool_calls = None\<rparr>]
          else conversation_history self)
         @ [\<lparr>m_role = User, m_content = user_message, m_name = None,
              m_tool_call_id = None, m_tool_calls = None\<rparr>]) w of
        (out, iteration, history', evs, w') \<Rightarrow>
          (out @ (if iteration \<ge> max_iterations then [MaxIterationsNotice] else []),
           \<lparr>conversation_history = history', turn_count = turn_count self + 1\<rparr>,
           iteration, evs, w'))"
  by (simp add: chat_def Let_def)

lemma chat_notice_iff:
  "MaxIterationsNotice \<in> set (chat_output env user_message self w)
     \<longleftrightarrow> chat_iterations env user_message self w \<ge> max_iterations"
proof -
  let ?h = "(if conversation_history self = []
          then [\<lparr>m_role = System, m_content = system_prompt env, m_name = None,
                  m_tool_call_id = None, m_tool_calls = None\<rparr>]
          else conversation_history self)
         @ [\<lparr>m_role = User, m_content = user_message, m_name = None,
              m_tool_call_id = None, m_tool_calls = None\<rparr>]"
  obtain out iteration history' evs w' where
    l: "chat_loop env 0 ?h w = (out, iteration, history', evs, w')"
    by (cases "chat_loop env 0 ?h w") auto
  from chat_loop_no_notice [of env 0 ?h w] l have "MaxIterationsNotice \<notin> set out" by simp
  then show ?thesis
    unfolding chat_output_def chat_iterations_def chat_unfold l by simp
qed

text \<open>
  When the service always requests tools, the loop runs \<open>max_iterations\<close> times with
  one completion call each, the notice is the last chunk and no error notice is yielded.
\<close>

lemma execute_tool_Inr: "\<exists>d. execute_tool tools tool_name tool_input = Inr d"
  by (simp add: execute_tool_def split: sum.splits)

lemma run_tool_calls_ok:
  assumes "\<forall>d. \<exists>text. json_dumps env d = Inr text"
    and "\<forall>arguments e. json_loads env arguments \<noteq> LoadsError e"
  shows "snd (snd (run_tool_calls env tcs history)) = None
       \<and> (\<forall>e. ErrorNotice e \<notin> set (fst (run_tool_calls env tcs history))
             \<and> UnexpectedErrorNotice e \<notin> set (fst (run_tool_calls env tcs history)))"
proof (induction tcs arbitrary: history)
  case Nil
  then show ?case by simp
next
  case (Cons tc rest)
  from assms(2) obtain tool_input where
    p: "parse_arguments env (tc_arguments tc) = Inr tool_input"
    by (cases "json_loads env (tc_arguments tc)") (auto simp: parse_arguments_def)
  obtain d where d: "execute_tool (handlers env) (tc_name tc) tool_input = Inr d"
    using execute_tool_Inr [of "handlers env" "tc_name tc" tool_input] by auto
  from assms(1) obtain dumped where t: "json_dumps env d = Inr dumped" by blast
  let ?h = "history @ [\<lparr>m_role = Tool, m_content = dumped,
                                m_name = Some (tc_name tc), m_tool_call_id = Some (tc_id tc),
                                m_tool_calls = None\<rparr>]"
  obtain out h' ex where r: "run_tool_calls env rest ?h = (out, h', ex)"
    by (cases "run_tool_calls env rest ?h") auto
  from Cons.IH [of ?h] r have ex: "ex = None"
    and ne: "\<forall>e. ErrorNotice e \<notin> set out \<and> UnexpectedErrorNotice e \<notin> set out"
    by auto
  show ?case
    using p d t r ex ne by (auto simp: Let_def split: option.splits)
qed

lemma call_openai_ok:
  assumes "completions_create env messages w = (Inr response, w')"
  shows "call_openai env messages w = (Inr response, [Invoke], w')"
proof -
  from assms have "generate_response env messages w = (Inr response, w')"
    by (simp add: generate_response_def)
  from retry_loop_success [of 0 3 "generate_response env messages" w response w' 1 True None] this
  show ?thesis by (simp add: call_openai_def with_retry_def)
qed

lemma chat_loop_always_tools:
  assumes "always_requests_tools env" and "iteration \<le> max_iterations"
  shows "\<exists>out history' evs w'.
           chat_loop env iteration history w = (out, max_iterations, history', evs, w')
         \<and> calls evs = nat (max_iterations - iteration)
         \<and> (\<forall>e. ErrorNotice e \<notin> set out \<and> UnexpectedErrorNotice e \<notin> set out)"
  using assms(2)
proof (induction "nat (max_iterations - iteration)" arbitrary: iteration history w)
  case 0
  then have "\<not> iteration < max_iterations" and "iteration = max_iterations" by simp_all
  with chat_loop_stop [of iteration env history w] show ?case by simp
next
  case (Suc n)
  then have lt: "iteration < max_iterations" by simp
  from assms(1) obtain response w' where
    c: "completions_create env history w = (Inr response, w')"
    and fr: "r_finish_reason response = ''tool_calls''"
    and tc: "r_tool_calls response \<noteq> None" "r_tool_calls response \<noteq> Some []"
    unfolding always_requests_tools_def by blast
  from assms(1) have dumps: "\<forall>d. \<exists>text. json_dumps env d = Inr text"
    and loads: "\<forall>arguments e. json_loads env arguments \<noteq> LoadsError e"
    unfolding always_requests_tools_def by blast+
  let ?h1 = "history @ [\<lparr>m_role = Assistant, m_content = [],
                          m_name = None, m_tool_call_id = None,
                          m_tool_calls = r_tool_calls response\<rparr>]"
  obtain out h2 ex where rt:
    "run_tool_calls env (the (r_tool_calls response)) ?h1 = (out, h2, ex)"
    by (cases "run_tool_calls env (the (r_tool_calls response)) ?h1") auto
  from run_tool_calls_ok [OF dumps loads, of "the (r_tool_calls response)" ?h1] rt
  have ex: "ex = None"
    and ne: "\<forall>e. ErrorNotice e \<notin> set out \<and> UnexpectedErrorNotice e \<notin> set out"
    by auto
  have step: "chat_loop env iteration history w =
      (case chat_loop env (iteration + 1) h2 w' of
         (out', iteration', history'', evs', w'') \<Rightarrow>
           (out @ out', iteration', history'', [Invoke] @ evs', w''))"
    using lt call_openai_ok [OF c] fr tc rt ex
    by (subst chat_loop.simps) simp
  have "n = nat (max_iterations - (iteration + 1))" using Suc.hyps(2) by simp
  from Suc.hyps(1) [OF this, of h2 w'] lt
  obtain out' history' evs' w'' where
    rec: "chat_loop env (iteration + 1) h2 w' = (out', max_iterations, history', evs', w'')"
    and cnt: "calls evs' = nat (max_iterations - (iteration + 1))"
    and ne': "\<forall>e. ErrorNotice e \<notin> set out' \<and> UnexpectedErrorNotice e \<notin> set out'"
    by auto
  have "chat_loop env iteration history w =
          (out @ out', max_iterations, history', [Invoke] @ evs', w'')
      \<and> calls ([Invoke] @ evs') = nat (max_iterations - iteration)
      \<and> (\<forall>e. ErrorNotice e \<notin> set (out @ out') \<and> UnexpectedErrorNotice e \<notin> set (out @ out'))"
    unfolding step rec using cnt ne ne' lt by simp
  then show ?case by blast
qed

lemma chat_cap_reached:
  assumes "always_requests_tools env"
  shows "chat_iterations env user_message self w = max_iterations
       \<and> calls (chat_events env user_message self w) = 10
       \<and> (\<exists>out. chat_output env user_message self w = out @ [MaxIterationsNotice]
             \<and> (\<forall>e. ErrorNotice e \<notin> set out \<and> UnexpectedErrorNotice e \<notin> set out))"
proof -
  let ?h = "(if conversation_history self = []
          then [\<lparr>m_role = System, m_content = system_prompt env, m_name = None,
                  m_tool_call_id = None, m_tool_calls = None\<rparr>]
          else conversation_history self)
         @ [\<lparr>m_role = User, m_content = user_message, m_name = None,
              m_tool_call_id = None, m_tool_calls = None\<rparr>]"
  have "(0::int) \<le> max_iterations" by (simp add: max_iterations_def)
  from chat_loop_always_tools [OF assms this, of ?h w]
  obtain out history' evs w' where
    l: "chat_loop env 0 ?h w = (out, max_iterations, history', evs, w')"
    and c: "calls evs = nat (max_iterations - 0)"
    and ne: "\<forall>e. ErrorNotice e \<notin> set out \<and> UnexpectedErrorNotice e \<notin> set out"
    by blast
  from c have c': "calls evs = 10" by (simp add: max_iterations_def)
  show ?thesis
    unfolding chat_output_def chat_iterations_def chat_events_def chat_unfold l
    using c' ne by simp
qed




text \<open>
  Claim C1, on the input where the code departs from it. The service requests a tool in
  its first nine responses and gives the final answer in the tenth. The loop is left by
  the \<^verbatim>\<open>break\<close> of the \<open>stop\<close> branch after ten completion calls, and the notice of the
  iteration cap is yielded after the answer all the same. With the answer in the ninth
  response there is no notice.
\<close>

theorem chat_stop_on_last_iteration:
  "chat_output (scripted_env 9) ''hi'' fresh_agent 0 =
     concat (replicate 9 [ToolNotice ''forecast_sales'', FormattedOutput (PyStr ''report'')])
     @ [Content ''Done'', MaxIterationsNotice]
   \<and> chat_iterations (scripted_env 9) ''hi'' fresh_agent 0 = 10
   \<and> calls (chat_events (scripted_env 9) ''hi'' fresh_agent 0) = 10
   \<and> chat_output (scripted_env 8) ''hi'' fresh_agent 0 =
     concat (replicate 8 [ToolNotice ''forecast_sales'', FormattedOutput (PyStr ''report'')])
     @ [Content ''Done'']"
  by code_simp

end
